theory Spec2Isabelle
  imports Main "HOL-Library.AList" "HOL-Library.Sublist"
begin

section \<open>Values, requests, responses and errors\<close>

text \<open>
  Shallow embedding of \<^verbatim>\<open>src/py_attio/client.py\<close>: the error classifier
  \<^verbatim>\<open>BaseClient._handle_error\<close>, the request primitive \<^verbatim>\<open>BaseClient._request\<close>,
  the resource operations \<^verbatim>\<open>list_records\<close>, \<^verbatim>\<open>list_entries\<close>,
  \<^verbatim>\<open>create_record\<close>, the two pagination generators and \<^verbatim>\<open>batch_create_records\<close>.

  Python values that travel as JSON are values of \<open>json\<close>. A dict is an association list
  in insertion order, read with \<^const>\<open>map_of\<close> and written with \<^const>\<open>AList.update\<close>
  (an existing key keeps its position, a new key goes to the end, as in Python). JSON numbers
  are integers here: floating point is outside the model. A Python \<^verbatim>\<open>str\<close> is a
  \<open>string\<close>, one \<open>char\<close> per character.
\<close>

datatype json =
    JNull
  | JBool bool
  | JInt int
  | JStr string
  | JList "json list"
  | JObj "(string \<times> json) list"

type_synonym dict = "(string \<times> json) list"

text \<open>
  The exception classes the code raises or lets through. \<open>OtherError\<close> stands for every
  further subclass of \<^verbatim>\<open>Exception\<close> the HTTP library may raise (connection errors,
  time-outs, JSON decoding errors). An exception carries its class and the text that
  \<^verbatim>\<open>str(e)\<close> returns. Signals that are not subclasses of \<^verbatim>\<open>Exception\<close>
  (\<^verbatim>\<open>KeyboardInterrupt\<close>, \<^verbatim>\<open>SystemExit\<close>) are not raised by any call the
  code makes and are not modelled.
\<close>

datatype exc_class =
    ValueError
  | PermissionError
  | FileNotFoundError
  | RuntimeError
  | Exception
  | OtherError

datatype exception = Exc exc_class string

fun exc_str :: "exception \<Rightarrow> string" where
  "exc_str (Exc c m) = m"

text \<open>
  What \<^verbatim>\<open>session.request(method, url, json=payload)\<close> receives, and the part of the
  \<^verbatim>\<open>requests.Response\<close> object the code reads: the property \<^verbatim>\<open>ok\<close>, the
  attributes \<^verbatim>\<open>status_code\<close> and \<^verbatim>\<open>text\<close>, and the outcome of calling
  \<^verbatim>\<open>response.json()\<close>, which returns the parsed body or raises.
\<close>

record http_request =
  rq_method :: string
  rq_url :: string
  rq_json :: json

record http_response =
  ok :: bool
  status_code :: int
  resp_text :: string
  json_result :: "exception + json"

text \<open>
  Everything outside the repository that the code calls: the HTTP session, a function of the
  server's state (of any type \<open>'s\<close>) and the request that returns the response or the raised
  exception together with the new server state; and the interpreter's \<^verbatim>\<open>str()\<close> on
  values that are not strings (\<^verbatim>\<open>str(s)\<close> of a string is \<open>s\<close> itself).
\<close>

record 's env =
  session_request :: "'s \<Rightarrow> http_request \<Rightarrow> (exception + http_response) \<times> 's"
  str_other :: "json \<Rightarrow> string"

definition py_str :: "'s env \<Rightarrow> json \<Rightarrow> string" where
  "py_str env v = (case v of JStr s \<Rightarrow> s | _ \<Rightarrow> str_other env v)"

text \<open>Decimal rendering of an integer, as an f-string renders \<^verbatim>\<open>{status_code}\<close>.\<close>

fun str_nat :: "nat \<Rightarrow> string" where
  "str_nat n =
     (if n < 10 then [char_of (48 + n)]
      else str_nat (n div 10) @ [char_of (48 + n mod 10)])"

declare str_nat.simps [simp del]

definition str_int :: "int \<Rightarrow> string" where
  "str_int i = (if i < 0 then CHR ''-'' # str_nat (nat (- i)) else str_nat (nat i))"

section \<open>The error classifier\<close>

text \<open>
  \<^verbatim>\<open>
  try:
      error_data = response.json()
      error_message = error_data.get('message', response.text)
  except:
      error_message = response.text
  \<close>
  \<^verbatim>\<open>response.json()\<close> may raise; \<^verbatim>\<open>.get\<close> exists on a dict only and raises
  \<^verbatim>\<open>AttributeError\<close> on every other JSON value; the bare \<^verbatim>\<open>except\<close> catches both.
\<close>

definition error_message :: "http_response \<Rightarrow> json" where
  "error_message response =
     (case json_result response of
        Inl e \<Rightarrow> JStr (resp_text response)
      | Inr error_data \<Rightarrow>
          (case error_data of
             JObj kvs \<Rightarrow>
               (case map_of kvs ''message'' of
                  Some v \<Rightarrow> v
                | None \<Rightarrow> JStr (resp_text response))
           | _ \<Rightarrow> JStr (resp_text response)))"

text \<open>
  \<^verbatim>\<open>_handle_error\<close>: the chain of \<^verbatim>\<open>if\<close>/\<^verbatim>\<open>elif\<close> on the status code, in the
  source's order. The result type has a branch for returning normally, which no case takes.
\<close>

definition handle_error :: "'s env \<Rightarrow> http_response \<Rightarrow> exception + unit" where
  "handle_error env response =
     (let sc = status_code response;
          msg = py_str env (error_message response)
      in if sc = 400 then
           Inl (Exc ValueError (''Bad Request (400): '' @ msg))
         else if sc = 401 then
           Inl (Exc PermissionError
                  (''Unauthorized (401): Invalid API key or permissions - '' @ msg))
         else if sc = 403 then
           Inl (Exc PermissionError (''Forbidden (403): Access denied - '' @ msg))
         else if sc = 404 then
           Inl (Exc FileNotFoundError (''Not Found (404): Resource not found - '' @ msg))
         else if sc = 409 then
           Inl (Exc ValueError (''Conflict (409): Resource conflict - '' @ msg))
         else if sc = 422 then
           Inl (Exc ValueError (''Unprocessable Entity (422): Validation error - '' @ msg))
         else if sc = 429 then
           Inl (Exc RuntimeError (''Rate Limited (429): Too many requests - '' @ msg))
         else if sc \<ge> 500 then
           Inl (Exc RuntimeError (''Server Error ('' @ str_int sc @ ''): '' @ msg))
         else
           Inl (Exc Exception (''Request failed ('' @ str_int sc @ ''): '' @ msg)))"

section \<open>The request primitive and the resource operations\<close>

text \<open>
  The observable effects of a run, in the order they happen: every call of
  \<^verbatim>\<open>session.request\<close> (whether it returns or raises) and every item a generator yields.
  The world is the server's state together with this trace.
\<close>

datatype event = Call http_request | Yield json

record 's world =
  server :: 's
  trace :: "event list"

definition base_url :: string where
  "base_url = ''https://api.attio.com/v2''"

text \<open>
  \<^verbatim>\<open>
  def _request(self, method, path, **kwargs):
      url = f"{self.base_url}{path}"
      response = self.session.request(method, url, **kwargs)
      if not response.ok:
          self._handle_error(response)
      return response.json()
  \<close>
  The three operations modelled pass \<^verbatim>\<open>json=payload\<close> as the only keyword argument.
\<close>

definition request' ::
  "'s env \<Rightarrow> string \<Rightarrow> string \<Rightarrow> json \<Rightarrow> 's world \<Rightarrow> (exception + json) \<times> 's world" where
  "request' env method path payload w =
     (let url = base_url @ path;
          rq = \<lparr>rq_method = method, rq_url = url, rq_json = payload\<rparr>;
          (res, s') = session_request env (server w) rq;
          w' = \<lparr>server = s', trace = trace w @ [Call rq]\<rparr>
      in case res of
           Inl e \<Rightarrow> (Inl e, w')
         | Inr response \<Rightarrow>
             if \<not> ok response then
               (case handle_error env response of
                  Inl e \<Rightarrow> (Inl e, w')
                | Inr u \<Rightarrow> (json_result response, w'))
             else (json_result response, w'))"

definition list_records ::
  "'s env \<Rightarrow> string \<Rightarrow> dict option \<Rightarrow> 's world \<Rightarrow> (exception + json) \<times> 's world" where
  "list_records env object_id payload w =
     (let payload = (case payload of None \<Rightarrow> [] | Some p \<Rightarrow> p)
      in request' env ''POST'' (''/objects/'' @ object_id @ ''/records/query'') (JObj payload) w)"

definition list_entries ::
  "'s env \<Rightarrow> string \<Rightarrow> dict option \<Rightarrow> 's world \<Rightarrow> (exception + json) \<times> 's world" where
  "list_entries env list_id payload w =
     (let payload = (case payload of None \<Rightarrow> [] | Some p \<Rightarrow> p)
      in request' env ''POST'' (''/lists/'' @ list_id @ ''/entries/query'') (JObj payload) w)"

definition create_record ::
  "'s env \<Rightarrow> string \<Rightarrow> json \<Rightarrow> 's world \<Rightarrow> (exception + json) \<times> 's world" where
  "create_record env object_id payload w =
     request' env ''POST'' (''/objects/'' @ object_id @ ''/records'') payload w"

section \<open>Python's operators on JSON values\<close>

text \<open>
  The pagination loop applies \<^verbatim>\<open>in\<close>, subscription, truth testing, iteration,
  \<^verbatim>\<open>len\<close> and \<^verbatim>\<open>+=\<close> to values whose type the code does not check. Where the
  interpreter raises, the model returns the error.
\<close>

datatype builtin_error = TypeError | KeyError

text \<open>\<^verbatim>\<open>'data' in response\<close>: a key of a dict, an element of a list, a substring of a string.\<close>

fun contains_data :: "json \<Rightarrow> builtin_error + bool" where
  "contains_data (JObj kvs) = Inr (''data'' \<in> set (map fst kvs))"
| "contains_data (JList xs) = Inr (JStr ''data'' \<in> set xs)"
| "contains_data (JStr s) = Inr (sublist ''data'' s)"
| "contains_data v = Inl TypeError"

text \<open>\<^verbatim>\<open>response['data']\<close>.\<close>

fun getitem_data :: "json \<Rightarrow> builtin_error + json" where
  "getitem_data (JObj kvs) =
     (case map_of kvs ''data'' of None \<Rightarrow> Inl KeyError | Some v \<Rightarrow> Inr v)"
| "getitem_data v = Inl TypeError"

text \<open>The truth value of a JSON value, as \<^verbatim>\<open>not records\<close> tests it.\<close>

fun truthy :: "json \<Rightarrow> bool" where
  "truthy JNull = False"
| "truthy (JBool b) = b"
| "truthy (JInt i) = (i \<noteq> 0)"
| "truthy (JStr s) = (s \<noteq> [])"
| "truthy (JList xs) = (xs \<noteq> [])"
| "truthy (JObj kvs) = (kvs \<noteq> [])"

text \<open>
  \<^verbatim>\<open>for record in records\<close>: the elements of a list, the characters of a string, the keys
  of a dict. What can be iterated here has a \<^verbatim>\<open>len\<close>, the number of items.
\<close>

fun iterate :: "json \<Rightarrow> builtin_error + json list" where
  "iterate (JList xs) = Inr xs"
| "iterate (JStr s) = Inr (map (\<lambda>c. JStr [c]) s)"
| "iterate (JObj kvs) = Inr (map (\<lambda>kv. JStr (fst kv)) kvs)"
| "iterate v = Inl TypeError"

text \<open>\<^verbatim>\<open>offset += page_size\<close> with an integer \<^verbatim>\<open>page_size\<close>; a bool counts as 0 or 1.\<close>

fun iadd :: "json \<Rightarrow> int \<Rightarrow> builtin_error + json" where
  "iadd (JInt i) n = Inr (JInt (i + n))"
| "iadd (JBool b) n = Inr (JInt ((if b then 1 else 0) + n))"
| "iadd v n = Inl TypeError"

text \<open>\<^verbatim>\<open>d.setdefault(k, v)\<close> and \<^verbatim>\<open>d.get(k, default)\<close>.\<close>

definition setdefault :: "string \<Rightarrow> json \<Rightarrow> dict \<Rightarrow> dict" where
  "setdefault k v d = (case map_of d k of None \<Rightarrow> AList.update k v d | Some u \<Rightarrow> d)"

definition dict_get :: "dict \<Rightarrow> string \<Rightarrow> json \<Rightarrow> json" where
  "dict_get d k dflt = (case map_of d k of None \<Rightarrow> dflt | Some v \<Rightarrow> v)"

section \<open>Pagination\<close>

text \<open>
  \<^verbatim>\<open>paginate_records\<close> and \<^verbatim>\<open>paginate_entries\<close> have the same body and differ in the
  query operation they call, so the body is written once, over the query \<open>q\<close>.

  The model runs the generator as a consumer that takes every item does. A run is the trace
  of its calls and yields, the caller's payload dict as the run leaves it, and how the run
  ended. The loop is \<^verbatim>\<open>while True\<close> and need not end, so it takes fuel, one unit for
  each pass through the loop body; \<open>Unfinished\<close> is a run cut off by the fuel, and what it
  returns is the state of a run that is still going. A consumer that stops early has seen a
  prefix of the trace.
\<close>

datatype outcome =
    Returned
  | Raised exception
  | RaisedBuiltin builtin_error
  | Unfinished

datatype loop_ctl = Continue json | Stop outcome

type_synonym 's query = "dict option \<Rightarrow> 's world \<Rightarrow> (exception + json) \<times> 's world"

text \<open>
  One pass through the loop body:
  \<^verbatim>\<open>
  payload['offset'] = offset
  response = self.list_records(object_id, payload)
  if 'data' not in response:
      break
  records = response['data']
  if not records:
      break
  for record in records:
      yield record
  if len(records) < page_size:
      break
  offset += page_size
  \<close>
\<close>

definition paginate_body ::
  "'s query \<Rightarrow> int \<Rightarrow> dict \<Rightarrow> json \<Rightarrow> 's world \<Rightarrow> loop_ctl \<times> dict \<times> 's world" where
  "paginate_body q page_size payload offset w =
     (let payload = AList.update ''offset'' offset payload;
          (res, w) = q (Some payload) w
      in case res of
           Inl e \<Rightarrow> (Stop (Raised e), payload, w)
         | Inr response \<Rightarrow>
            (case contains_data response of
               Inl b \<Rightarrow> (Stop (RaisedBuiltin b), payload, w)
             | Inr False \<Rightarrow> (Stop Returned, payload, w)
             | Inr True \<Rightarrow>
                (case getitem_data response of
                   Inl b \<Rightarrow> (Stop (RaisedBuiltin b), payload, w)
                 | Inr records \<Rightarrow>
                    if \<not> truthy records then (Stop Returned, payload, w)
                    else
                      (case iterate records of
                         Inl b \<Rightarrow> (Stop (RaisedBuiltin b), payload, w)
                       | Inr items \<Rightarrow>
                          (let w = w\<lparr>trace := trace w @ map Yield items\<rparr>
                           in if int (length items) < page_size then (Stop Returned, payload, w)
                              else
                                (case iadd offset page_size of
                                   Inl b \<Rightarrow> (Stop (RaisedBuiltin b), payload, w)
                                 | Inr offset \<Rightarrow> (Continue offset, payload, w)))))))"

fun paginate_loop ::
  "nat \<Rightarrow> 's query \<Rightarrow> int \<Rightarrow> dict \<Rightarrow> json \<Rightarrow> 's world \<Rightarrow> outcome \<times> dict \<times> 's world" where
  "paginate_loop 0 q page_size payload offset w = (Unfinished, payload, w)"
| "paginate_loop (Suc n) q page_size payload offset w =
     (case paginate_body q page_size payload offset w of
        (Continue offset', payload', w') \<Rightarrow> paginate_loop n q page_size payload' offset' w'
      | (Stop r, payload', w') \<Rightarrow> (r, payload', w'))"

text \<open>
  \<^verbatim>\<open>
  if payload is None:
      payload = {}
  payload.setdefault('limit', page_size)
  offset = payload.get('offset', 0)
  while True: ...
  \<close>
\<close>

definition paginate ::
  "nat \<Rightarrow> 's query \<Rightarrow> dict option \<Rightarrow> int \<Rightarrow> 's world \<Rightarrow> outcome \<times> dict \<times> 's world" where
  "paginate fuel q payload page_size w =
     (let payload = (case payload of None \<Rightarrow> [] | Some p \<Rightarrow> p);
          payload = setdefault ''limit'' (JInt page_size) payload;
          offset = dict_get payload ''offset'' (JInt 0)
      in paginate_loop fuel q page_size payload offset w)"

definition paginate_records ::
  "'s env \<Rightarrow> nat \<Rightarrow> string \<Rightarrow> dict option \<Rightarrow> int \<Rightarrow> 's world \<Rightarrow> outcome \<times> dict \<times> 's world" where
  "paginate_records env fuel object_id payload page_size w =
     paginate fuel (list_records env object_id) payload page_size w"

definition paginate_entries ::
  "'s env \<Rightarrow> nat \<Rightarrow> string \<Rightarrow> dict option \<Rightarrow> int \<Rightarrow> 's world \<Rightarrow> outcome \<times> dict \<times> 's world" where
  "paginate_entries env fuel list_id payload page_size w =
     paginate fuel (list_entries env list_id) payload page_size w"

text \<open>The items a trace yields and the requests it sends, each in order.\<close>

fun yields :: "event list \<Rightarrow> json list" where
  "yields [] = []"
| "yields (Yield v # es) = v # yields es"
| "yields (Call rq # es) = yields es"

fun calls :: "event list \<Rightarrow> http_request list" where
  "calls [] = []"
| "calls (Call rq # es) = rq # calls es"
| "calls (Yield v # es) = calls es"

section \<open>Batch creation\<close>

text \<open>
  \<^verbatim>\<open>range(start, stop, step)\<close> as a list: a zero step raises \<^verbatim>\<open>ValueError\<close>, with
  the text CPython gives it; otherwise the number of elements is the one CPython computes.
\<close>

definition py_range :: "int \<Rightarrow> int \<Rightarrow> int \<Rightarrow> exception + int list" where
  "py_range start stop step =
     (if step = 0 then Inl (Exc ValueError ''range() arg 3 must not be zero'')
      else
        (let n = (if step > 0 then (if start < stop then (stop - start - 1) div step + 1 else 0)
                  else (if stop < start then (start - stop - 1) div (- step) + 1 else 0))
         in Inr (map (\<lambda>k. start + int k * step) [0..<nat n])))"

text \<open>
  \<^verbatim>\<open>xs[i:j]\<close>: a negative bound counts from the end, and both bounds are clamped to the
  list.
\<close>

definition slice_bound :: "int \<Rightarrow> int \<Rightarrow> int" where
  "slice_bound n i = (if i < 0 then max 0 (i + n) else min i n)"

definition py_slice :: "'a list \<Rightarrow> int \<Rightarrow> int \<Rightarrow> 'a list" where
  "py_slice xs i j =
     (let n = int (length xs); lo = slice_bound n i; hi = slice_bound n j
      in take (nat (hi - lo)) (drop (nat lo) xs))"

text \<open>
  The inner loop over one batch:
  \<^verbatim>\<open>
  for record_payload in batch:
      try:
          result = self.create_record(object_id, record_payload)
          results.append(result)
      except Exception as e:
          results.append({'error': str(e), 'payload': record_payload})
  \<close>
\<close>

definition error_entry :: "exception \<Rightarrow> json \<Rightarrow> json" where
  "error_entry e record_payload =
     JObj [(''error'', JStr (exc_str e)), (''payload'', record_payload)]"

fun batch_items ::
  "'s env \<Rightarrow> string \<Rightarrow> json list \<Rightarrow> json list \<times> 's world \<Rightarrow> json list \<times> 's world" where
  "batch_items env object_id [] (results, w) = (results, w)"
| "batch_items env object_id (record_payload # batch) (results, w) =
     (case create_record env object_id record_payload w of
        (Inr result, w') \<Rightarrow> batch_items env object_id batch (results @ [result], w')
      | (Inl e, w') \<Rightarrow>
          batch_items env object_id batch (results @ [error_entry e record_payload], w'))"

text \<open>
  The outer loop, over the indices \<^verbatim>\<open>range(0, len(records), batch_size)\<close>, with
  \<^verbatim>\<open>batch = records[i:i + batch_size]\<close>.
\<close>

fun batch_loop ::
  "'s env \<Rightarrow> string \<Rightarrow> json list \<Rightarrow> int \<Rightarrow> int list \<Rightarrow> json list \<times> 's world
     \<Rightarrow> json list \<times> 's world" where
  "batch_loop env object_id records batch_size [] acc = acc"
| "batch_loop env object_id records batch_size (i # is) acc =
     batch_loop env object_id records batch_size is
       (batch_items env object_id (py_slice records i (i + batch_size)) acc)"

definition batch_create_records ::
  "'s env \<Rightarrow> string \<Rightarrow> json list \<Rightarrow> int \<Rightarrow> 's world \<Rightarrow> (exception + json list) \<times> 's world" where
  "batch_create_records env object_id records batch_size w =
     (case py_range 0 (int (length records)) batch_size of
        Inl e \<Rightarrow> (Inl e, w)
      | Inr idx \<Rightarrow>
          (case batch_loop env object_id records batch_size idx ([], w) of
             (results, w') \<Rightarrow> (Inr results, w')))"

section \<open>A server with a stable result set\<close>


section \<open>Servers for the concrete runs\<close>

text \<open>
  Two servers on which the theorems below are run at concrete inputs. The state of each is
  the number of requests it has answered. \<open>paged_server items\<close> answers a query that carries
  an integer \<^verbatim>\<open>offset\<close> \<open>\<ge> 0\<close> and \<^verbatim>\<open>limit\<close> \<open>> 0\<close> with that page of \<open>items\<close>,
  and any other request with status 400. \<open>create_server\<close> accepts a payload that has a
  \<^verbatim>\<open>name\<close> and answers any other with status 422 and a structured message.
\<close>

definition bad_request :: http_response where
  "bad_request =
     \<lparr>ok = False, status_code = 400, resp_text = ''bad request'',
      json_result = Inl (Exc OtherError ''Expecting value: line 1 column 1 (char 0)'')\<rparr>"

definition paged_server ::
  "json list \<Rightarrow> nat \<Rightarrow> http_request \<Rightarrow> (exception + http_response) \<times> nat" where
  "paged_server items n rq =
     (case rq_json rq of
        JObj p \<Rightarrow>
          (case (map_of p ''offset'', map_of p ''limit'') of
             (Some (JInt off), Some (JInt lim)) \<Rightarrow>
               if 0 \<le> off \<and> 0 < lim then
                 (Inr \<lparr>ok = True, status_code = 200, resp_text = ''page'',
                       json_result =
                         Inr (JObj [(''data'', JList (take (nat lim) (drop (nat off) items)))])\<rparr>,
                  Suc n)
               else (Inr bad_request, Suc n)
           | _ \<Rightarrow> (Inr bad_request, Suc n))
      | _ \<Rightarrow> (Inr bad_request, Suc n))"

definition create_server :: "nat \<Rightarrow> http_request \<Rightarrow> (exception + http_response) \<times> nat" where
  "create_server n rq =
     (case rq_json rq of
        JObj p \<Rightarrow>
          (case map_of p ''name'' of
             Some v \<Rightarrow>
               (Inr \<lparr>ok = True, status_code = 200, resp_text = ''created'',
                     json_result = Inr (JObj [(''data'', JObj p)])\<rparr>,
                Suc n)
           | None \<Rightarrow>
               (Inr \<lparr>ok = False, status_code = 422, resp_text = ''unprocessable'',
                     json_result = Inr (JObj [(''message'', JStr ''name is required'')])\<rparr>,
                Suc n))
      | _ \<Rightarrow> (Inr bad_request, Suc n))"

definition repr_stub :: "json \<Rightarrow> string" where
  "repr_stub v = ''<value>''"

definition paged_env :: "json list \<Rightarrow> nat env" where
  "paged_env items = \<lparr>session_request = paged_server items, str_other = repr_stub\<rparr>"

definition create_env :: "nat env" where
  "create_env = \<lparr>session_request = create_server, str_other = repr_stub\<rparr>"

definition start :: "nat world" where
  "start = \<lparr>server = 0, trace = []\<rparr>"

text \<open>A result set of seven records.\<close>

definition seven_records :: "json list" where
  "seven_records = map (\<lambda>i. JObj [(''id'', JInt i)]) [1, 2, 3, 4, 5, 6, 7]"

text \<open>Five create payloads, of which the one at index 3 has no \<^verbatim>\<open>name\<close>.\<close>

definition five_payloads :: "json list" where
  "five_payloads =
     [JObj [(''name'', JStr ''Ada'')],
      JObj [(''name'', JStr ''Bo'')],
      JObj [(''name'', JStr ''Cy'')],
      JObj [(''email'', JStr ''dee@example.com'')],
      JObj [(''name'', JStr ''Eve'')]]"

section \<open>The error classifier always raises, by the status table\<close>

text \<open>
  Claim C6. For every response, whatever its status code, \<open>handle_error\<close> raises and never
  returns. The class and the text of the raised error are fixed by the status code:
  400 \<^verbatim>\<open>ValueError\<close> "Bad Request", 401 \<^verbatim>\<open>PermissionError\<close> "Unauthorized",
  403 \<^verbatim>\<open>PermissionError\<close> "Forbidden", 404 \<^verbatim>\<open>FileNotFoundError\<close> "Not Found",
  409 \<^verbatim>\<open>ValueError\<close> "Conflict", 422 \<^verbatim>\<open>ValueError\<close> "Unprocessable Entity",
  429 \<^verbatim>\<open>RuntimeError\<close> "Rate Limited", 500 and above \<^verbatim>\<open>RuntimeError\<close>
  "Server Error", anything else \<^verbatim>\<open>Exception\<close> "Request failed". The text ends with
  the message \<open>m\<close>: the \<^verbatim>\<open>message\<close> field of the body when the body parses to a JSON
  object that has one (the field itself when it is a string), and the raw body text when the
  body does not parse to a JSON object or the object has no such field.
\<close>

theorem handle_error_raises_by_status:
  "(\<exists>e. handle_error env r = Inl e) \<and>
   (let sc = status_code r; m = py_str env (error_message r) in
    (sc = 400 \<longrightarrow> handle_error env r = Inl (Exc ValueError (''Bad Request (400): '' @ m))) \<and>
    (sc = 401 \<longrightarrow> handle_error env r =
       Inl (Exc PermissionError (''Unauthorized (401): Invalid API key or permissions - '' @ m))) \<and>
    (sc = 403 \<longrightarrow> handle_error env r =
       Inl (Exc PermissionError (''Forbidden (403): Access denied - '' @ m))) \<and>
    (sc = 404 \<longrightarrow> handle_error env r =
       Inl (Exc FileNotFoundError (''Not Found (404): Resource not found - '' @ m))) \<and>
    (sc = 409 \<longrightarrow> handle_error env r =
       Inl (Exc ValueError (''Conflict (409): Resource conflict - '' @ m))) \<and>
    (sc = 422 \<longrightarrow> handle_error env r =
       Inl (Exc ValueError (''Unprocessable Entity (422): Validation error - '' @ m))) \<and>
    (sc = 429 \<longrightarrow> handle_error env r =
       Inl (Exc RuntimeError (''Rate Limited (429): Too many requests - '' @ m))) \<and>
    (sc \<ge> 500 \<longrightarrow> handle_error env r =
       Inl (Exc RuntimeError (''Server Error ('' @ str_int sc @ ''): '' @ m))) \<and>
    (sc < 500 \<and> sc \<notin> {400, 401, 403, 404, 409, 422, 429} \<longrightarrow> handle_error env r =
       Inl (Exc Exception (''Request failed ('' @ str_int sc @ ''): '' @ m))) \<and>
    (\<forall>kvs v. json_result r = Inr (JObj kvs) \<and> map_of kvs ''message'' = Some v
       \<longrightarrow> m = py_str env v) \<and>
    (\<forall>s. py_str env (JStr s) = s) \<and>
    ((\<forall>kvs. json_result r = Inr (JObj kvs) \<longrightarrow> map_of kvs ''message'' = None)
       \<longrightarrow> m = resp_text r))"
proof -
  have raises: "\<exists>e. handle_error env r = Inl e"
    by (simp add: handle_error_def Let_def)
  have table: "handle_error env r =
      (let sc = status_code r; m = py_str env (error_message r) in
       if sc = 400 then Inl (Exc ValueError (''Bad Request (400): '' @ m)) else
       if sc = 401 then Inl (Exc PermissionError (''Unauthorized (401): Invalid API key or permissions - '' @ m)) else
       if sc = 403 then Inl (Exc PermissionError (''Forbidden (403): Access denied - '' @ m)) else
       if sc = 404 then Inl (Exc FileNotFoundError (''Not Found (404): Resource not found - '' @ m)) else
       if sc = 409 then Inl (Exc ValueError (''Conflict (409): Resource conflict - '' @ m)) else
       if sc = 422 then Inl (Exc ValueError (''Unprocessable Entity (422): Validation error - '' @ m)) else
       if sc = 429 then Inl (Exc RuntimeError (''Rate Limited (429): Too many requests - '' @ m)) else
       if sc \<ge> 500 then Inl (Exc RuntimeError (''Server Error ('' @ str_int sc @ ''): '' @ m)) else
       Inl (Exc Exception (''Request failed ('' @ str_int sc @ ''): '' @ m)))"
    by (simp add: handle_error_def)
  have m1: "\<forall>kvs v. json_result r = Inr (JObj kvs) \<and> map_of kvs ''message'' = Some v
       \<longrightarrow> py_str env (error_message r) = py_str env v"
    by (simp add: error_message_def)
  have m2: "\<forall>s. py_str env (JStr s) = s"
    by (simp add: py_str_def)
  have m3: "(\<forall>kvs. json_result r = Inr (JObj kvs) \<longrightarrow> map_of kvs ''message'' = None)
       \<longrightarrow> py_str env (error_message r) = resp_text r"
    by (auto simp add: error_message_def py_str_def split: sum.splits json.splits option.splits)
  show ?thesis
    using raises m1 m2 m3 by (simp add: table Let_def)
qed

text \<open>The classifier on a 422 response whose body carries a structured message.\<close>

theorem handle_error_raises_by_status_witness:
  "handle_error create_env
     \<lparr>ok = False, status_code = 422, resp_text = ''unprocessable'',
      json_result = Inr (JObj [(''message'', JStr ''name is required'')])\<rparr>
   = Inl (Exc ValueError ''Unprocessable Entity (422): Validation error - name is required'')"
  using handle_error_raises_by_status [of create_env
     "\<lparr>ok = False, status_code = 422, resp_text = ''unprocessable'',
      json_result = Inr (JObj [(''message'', JStr ''name is required'')])\<rparr>"]
  by (simp add: Let_def)

section \<open>Traces\<close>

lemma calls_append: "calls (es @ fs) = calls es @ calls fs"
  by (induction es rule: calls.induct) simp_all

lemma yields_append: "yields (es @ fs) = yields es @ yields fs"
  by (induction es rule: yields.induct) simp_all

lemma request'_trace:
  "trace (snd (request' env method path payload w)) =
     trace w @ [Call \<lparr>rq_method = method, rq_url = base_url @ path, rq_json = payload\<rparr>]"
  by (simp add: request'_def Let_def split: prod.splits sum.splits)

lemma create_record_trace:
  "trace (snd (create_record env oid p w)) =
     trace w @ [Call \<lparr>rq_method = ''POST'', rq_url = base_url @ ''/objects/'' @ oid @ ''/records'',
                      rq_json = p\<rparr>]"
  by (simp add: create_record_def request'_trace)

section \<open>Batch creation is one pass over the payloads\<close>

text \<open>
  The inner loop over a concatenation is the inner loop over its parts in turn, so the two
  nested loops are one pass of the inner loop over the concatenated slices.
\<close>

lemma batch_items_append:
  "batch_items env oid (xs @ ys) acc = batch_items env oid ys (batch_items env oid xs acc)"
proof (induction xs arbitrary: acc)
  case Nil
  show ?case by (cases acc) simp
next
  case (Cons x xs)
  show ?case
    by (cases acc) (simp add: Cons.IH split: prod.splits sum.splits)
qed

lemma batch_items_Nil: "batch_items env oid [] acc = acc"
  by (cases acc) simp

lemma batch_loop_concat:
  "batch_loop env oid records b idx acc =
     batch_items env oid (concat (map (\<lambda>i. py_slice records i (i + b)) idx)) acc"
  by (induction idx arbitrary: acc) (simp_all add: batch_items_append batch_items_Nil)

text \<open>
  With a positive step, the slices \<^verbatim>\<open>records[i:i + batch_size]\<close> over
  \<^verbatim>\<open>range(0, len(records), batch_size)\<close> are consecutive chunks that cover the list.
\<close>

lemma py_slice_nonneg:
  assumes "0 \<le> i" and "0 < b"
  shows "py_slice xs i (i + b) = take (nat b) (drop (nat i) xs)"
proof (cases "i + b \<le> int (length xs)")
  case True
  then show ?thesis
    using assms by (simp add: py_slice_def slice_bound_def Let_def min_def)
next
  case False
  show ?thesis
  proof (cases "i \<le> int (length xs)")
    case True
    have "length xs - nat i \<le> nat b" using False assms by linarith
    moreover have "nat (int (length xs) - i) = length xs - nat i" using assms by linarith
    ultimately show ?thesis
      using assms True False by (simp add: py_slice_def slice_bound_def Let_def min_def)
  next
    case False
    then have "length xs \<le> nat i" using assms by linarith
    then show ?thesis
      using assms False by (simp add: py_slice_def slice_bound_def Let_def min_def)
  qed
qed

lemma py_slice_chunk:
  assumes "0 < b"
  shows "py_slice xs (int k * b) (int k * b + b) = take (nat b) (drop (k * nat b) xs)"
proof -
  have "nat (int k * b) = k * nat b"
    using assms by (simp add: nat_mult_distrib)
  moreover have "0 \<le> int k * b" using assms by simp
  ultimately show ?thesis using py_slice_nonneg [of "int k * b" b xs] assms by simp
qed

lemma concat_chunks:
  "concat (map (\<lambda>k. take B (drop (k * B) xs)) [0..<m]) = take (m * B) xs"
proof (induction m)
  case 0
  show ?case by simp
next
  case (Suc m)
  have "take (m * B) xs @ take B (drop (m * B) xs) = take (m * B + B) xs"
    by (simp add: take_add)
  then show ?case using Suc by (simp add: add.commute)
qed

lemma py_range_pos:
  assumes "0 < b"
  shows "\<exists>m. py_range 0 (int n) b = Inr (map (\<lambda>k. int k * b) [0..<m]) \<and> n \<le> m * nat b"
proof (cases "n = 0")
  case True
  then show ?thesis using assms by (simp add: py_range_def)
next
  case False
  let ?m = "nat ((int n - 1) div b + 1)"
  have r: "py_range 0 (int n) b = Inr (map (\<lambda>k. int k * b) [0..<?m])"
    using assms False by (simp add: py_range_def)
  have "int n - 1 < ((int n - 1) div b + 1) * b"
    using assms by (metis add.commute div_mult_mod_eq distrib_right mult.commute mult_1 pos_mod_bound add_less_cancel_left)
  moreover have "0 \<le> (int n - 1) div b + 1"
    using assms False by (simp add: pos_imp_zdiv_nonneg_iff add_nonneg_nonneg)
  ultimately have "int n \<le> int (?m * nat b)"
    using assms by (simp add: nat_mult_distrib[symmetric]) 
  then have "n \<le> ?m * nat b" by linarith
  with r show ?thesis by blast
qed

lemma batch_create_records_pos:
  assumes "0 < b"
  shows "batch_create_records env oid records b w =
     (Inr (fst (batch_items env oid records ([], w))), snd (batch_items env oid records ([], w)))"
proof -
  obtain m where r: "py_range 0 (int (length records)) b = Inr (map (\<lambda>k. int k * b) [0..<m])"
    and m: "length records \<le> m * nat b"
    using py_range_pos [OF assms] by blast
  have "concat (map (\<lambda>i. py_slice records i (i + b)) (map (\<lambda>k. int k * b) [0..<m])) =
        concat (map (\<lambda>k. take (nat b) (drop (k * nat b) records)) [0..<m])"
    by (simp add: comp_def py_slice_chunk [OF assms])
  also have "\<dots> = records"
    using m by (simp add: concat_chunks)
  finally show ?thesis
    by (simp add: batch_create_records_def r batch_loop_concat split: prod.splits)
qed

text \<open>
  What the inner loop does to the result list and to the trace: it appends one entry per
  payload, sends one request per payload, and the entry at a position is decided by the create
  call made in the world the earlier payloads have left.
\<close>

lemma batch_items_results:
  "\<exists>rs. fst (batch_items env oid xs (res, w)) = res @ rs \<and> length rs = length xs"
proof (induction xs arbitrary: res w)
  case Nil
  show ?case by simp
next
  case (Cons x xs)
  obtain o' w' where c: "create_record env oid x w = (o', w')" by (cases "create_record env oid x w")
  show ?case
  proof (cases o')
    case (Inl e)
    obtain rs where "fst (batch_items env oid xs (res @ [error_entry e x], w')) = (res @ [error_entry e x]) @ rs"
      and "length rs = length xs" using Cons.IH by blast
    then show ?thesis using c Inl by simp
  next
    case (Inr r)
    obtain rs where "fst (batch_items env oid xs (res @ [r], w')) = (res @ [r]) @ rs"
      and "length rs = length xs" using Cons.IH by blast
    then show ?thesis using c Inr by simp
  qed
qed

lemma batch_items_calls:
  "calls (trace (snd (batch_items env oid xs (res, w)))) =
     calls (trace w) @
     map (\<lambda>p. \<lparr>rq_method = ''POST'', rq_url = base_url @ ''/objects/'' @ oid @ ''/records'',
                rq_json = p\<rparr>) xs"
proof (induction xs arbitrary: res w)
  case Nil
  show ?case by simp
next
  case (Cons x xs)
  obtain o' w' where c: "create_record env oid x w = (o', w')" by (cases "create_record env oid x w")
  have t: "calls (trace w') = calls (trace w) @
      [\<lparr>rq_method = ''POST'', rq_url = base_url @ ''/objects/'' @ oid @ ''/records'', rq_json = x\<rparr>]"
    using create_record_trace [of env oid x w] c by (simp add: calls_append)
  show ?case
    using c t by (cases o') (simp_all add: Cons.IH)
qed

lemma batch_items_nth:
  assumes "k < length xs"
  shows "fst (batch_items env oid xs (res, w)) ! (length res + k) =
     (case fst (create_record env oid (xs ! k) (snd (batch_items env oid (take k xs) (res, w)))) of
        Inr r \<Rightarrow> r
      | Inl e \<Rightarrow> error_entry e (xs ! k))"
proof -
  obtain rk wk where pk: "batch_items env oid (take k xs) (res, w) = (rk, wk)"
    by (cases "batch_items env oid (take k xs) (res, w)")
  obtain rs where rk: "rk = res @ rs" and lk: "length rs = length (take k xs)"
    using batch_items_results [of env oid "take k xs" res w] pk by auto
  have len: "length rk = length res + k" using rk lk assms by simp
  obtain o' w' where c: "create_record env oid (xs ! k) wk = (o', w')"
    by (cases "create_record env oid (xs ! k) wk")
  define entry where "entry = (case o' of Inr r \<Rightarrow> r | Inl e \<Rightarrow> error_entry e (xs ! k))"
  have one: "batch_items env oid [xs ! k] (rk, wk) = (rk @ [entry], w')"
    using c by (cases o') (simp_all add: entry_def)
  have split: "xs = take k xs @ [xs ! k] @ drop (Suc k) xs"
    using assms by (simp add: id_take_nth_drop [symmetric])
  have "batch_items env oid xs (res, w) =
      batch_items env oid (drop (Suc k) xs) (rk @ [entry], w')"
    using pk one batch_items_append [of env oid "take k xs" "[xs ! k] @ drop (Suc k) xs" "(res, w)"]
      batch_items_append [of env oid "[xs ! k]" "drop (Suc k) xs" "(rk, wk)"] split
    by simp
  moreover obtain rs' where "fst (batch_items env oid (drop (Suc k) xs) (rk @ [entry], w')) = (rk @ [entry]) @ rs'"
    using batch_items_results by blast
  ultimately have "fst (batch_items env oid xs (res, w)) ! (length res + k) = entry"
    using len by (simp add: nth_append)
  then show ?thesis using pk c by (simp add: entry_def)
qed

section \<open>Batch creation: length and order of the results\<close>

text \<open>
  Claim C4. For every list of payloads, the empty list included, and every positive
  \<open>batch_size\<close>, \<open>batch_create_records\<close> returns a list (it does not raise) that is as long
  as the input, and the result at each position \<open>k\<close> belongs to the payload at position \<open>k\<close>: it
  is the response of the create call for that payload, made after the calls for the payloads
  before it, or the error entry of that payload when the call raised.
\<close>

theorem batch_create_records_length:
  assumes "0 < batch_size"
  shows "\<exists>results w'.
     batch_create_records env object_id records batch_size w = (Inr results, w') \<and>
     length results = length records \<and>
     (\<forall>k < length records.
        results ! k =
          (case fst (create_record env object_id (records ! k)
                  (snd (batch_create_records env object_id (take k records) batch_size w))) of
             Inr result \<Rightarrow> result
           | Inl e \<Rightarrow> error_entry e (records ! k)))"
proof -
  let ?run = "batch_items env object_id records ([], w)"
  have len: "length (fst ?run) = length records"
    using batch_items_results [of env object_id records "[]" w] by auto
  have nth: "\<forall>k < length records. fst ?run ! k =
      (case fst (create_record env object_id (records ! k)
                  (snd (batch_create_records env object_id (take k records) batch_size w))) of
             Inr result \<Rightarrow> result
           | Inl e \<Rightarrow> error_entry e (records ! k))"
    using batch_items_nth [of _ records env object_id "[]" w]
    by (simp add: batch_create_records_pos [OF assms])
  show ?thesis
    using len nth by (simp add: batch_create_records_pos [OF assms])
qed

text \<open>Five payloads in batches of two give five results.\<close>

theorem batch_create_records_length_witness:
  "(0::int) < 2 \<and>
   (\<exists>results w'. batch_create_records create_env ''people'' five_payloads 2 start = (Inr results, w')
      \<and> length results = 5)"
  using batch_create_records_length [of 2 create_env "''people''" five_payloads start]
  by (auto simp add: five_payloads_def)

section \<open>Batch creation: one failure does not touch its neighbours\<close>

text \<open>
  Claim C5. For every list of payloads and every positive \<open>batch_size\<close>, if the create call
  for the payload at position \<open>k\<close> raises \<open>e\<close>, then \<open>batch_create_records\<close> still returns a
  list; the result at position \<open>k\<close> is the dict with \<^verbatim>\<open>'error'\<close> bound to
  \<^verbatim>\<open>str(e)\<close> and \<^verbatim>\<open>'payload'\<close> bound to the payload at position \<open>k\<close>; one create
  request has been sent for every payload, in input order, the ones after \<open>k\<close> included; and
  every position whose own create call returned holds the response of that call.
\<close>

theorem batch_create_records_isolates_errors:
  assumes "0 < batch_size" and "k < length records"
    and "fst (create_record env object_id (records ! k)
              (snd (batch_create_records env object_id (take k records) batch_size w))) = Inl e"
  shows "\<exists>results w'.
     batch_create_records env object_id records batch_size w = (Inr results, w') \<and>
     results ! k = JObj [(''error'', JStr (exc_str e)), (''payload'', records ! k)] \<and>
     calls (trace w') = calls (trace w) @
       map (\<lambda>p. \<lparr>rq_method = ''POST'',
                  rq_url = base_url @ ''/objects/'' @ object_id @ ''/records'',
                  rq_json = p\<rparr>) records \<and>
     (\<forall>j < length records. \<forall>r.
        fst (create_record env object_id (records ! j)
              (snd (batch_create_records env object_id (take j records) batch_size w))) = Inr r
        \<longrightarrow> results ! j = r)"
proof -
  let ?run = "batch_items env object_id records ([], w)"
  have pre: "\<And>j. snd (batch_create_records env object_id (take j records) batch_size w) =
      snd (batch_items env object_id (take j records) ([], w))"
    by (simp add: batch_create_records_pos [OF assms(1)])
  have nth: "\<And>j. j < length records \<Longrightarrow> fst ?run ! j =
      (case fst (create_record env object_id (records ! j)
                  (snd (batch_items env object_id (take j records) ([], w)))) of
             Inr result \<Rightarrow> result
           | Inl e \<Rightarrow> error_entry e (records ! j))"
    using batch_items_nth [of _ records env object_id "[]" w] by simp
  have atk: "fst ?run ! k = JObj [(''error'', JStr (exc_str e)), (''payload'', records ! k)]"
    using nth [OF assms(2)] assms(3) by (simp add: pre error_entry_def)
  have others: "\<forall>j < length records. \<forall>r.
        fst (create_record env object_id (records ! j)
              (snd (batch_create_records env object_id (take j records) batch_size w))) = Inr r
        \<longrightarrow> fst ?run ! j = r"
    using nth by (simp add: pre)
  have cs: "calls (trace (snd ?run)) = calls (trace w) @
       map (\<lambda>p. \<lparr>rq_method = ''POST'',
                  rq_url = base_url @ ''/objects/'' @ object_id @ ''/records'',
                  rq_json = p\<rparr>) records"
    by (rule batch_items_calls)
  show ?thesis
    using atk others cs by (simp add: batch_create_records_pos [OF assms(1)])
qed

text \<open>
  The scenario of the specification: five payloads, batches of two, and the payload at index
  3 answered with status 422.
\<close>

theorem batch_create_records_isolates_errors_witness:
  "\<exists>results w'.
     batch_create_records create_env ''people'' five_payloads 2 start = (Inr results, w') \<and>
     results ! 3 =
       JObj [(''error'', JStr ''Unprocessable Entity (422): Validation error - name is required''),
             (''payload'', JObj [(''email'', JStr ''dee@example.com'')])]"
proof -
  have pos: "(0::int) < 2" by simp
  have k: "3 < length five_payloads" by (simp add: five_payloads_def)
  have raises: "fst (create_record create_env ''people'' (five_payloads ! 3)
              (snd (batch_create_records create_env ''people'' (take 3 five_payloads) 2 start))) =
      Inl (Exc ValueError ''Unprocessable Entity (422): Validation error - name is required'')"
    by code_simp
  have p: "five_payloads ! 3 = JObj [(''email'', JStr ''dee@example.com'')]"
    by (simp add: five_payloads_def)
  show ?thesis
    using batch_create_records_isolates_errors [OF pos k raises] by (auto simp add: p)
qed

section \<open>Batch creation: the batch size only chunks\<close>

text \<open>
  Claim C8. For every list of payloads and any two positive batch sizes, the two runs of
  \<open>batch_create_records\<close> from the same world give the same result list and leave the same
  world: the same create requests in the same order in the trace, and the same server state.
\<close>

theorem batch_size_is_only_chunking:
  assumes "0 < b1" and "0 < b2"
  shows "batch_create_records env object_id records b1 w =
         batch_create_records env object_id records b2 w"
  by (simp add: batch_create_records_pos [OF assms(1)] batch_create_records_pos [OF assms(2)])

text \<open>Batches of 2 and batches of 50 over the five payloads.\<close>

theorem batch_size_is_only_chunking_witness:
  "batch_create_records create_env ''people'' five_payloads 2 start =
   batch_create_records create_env ''people'' five_payloads 50 start"
  using batch_size_is_only_chunking [of 2 50 create_env "''people''" five_payloads start]
  by simp

section \<open>Batch creation outside a positive batch size\<close>

text \<open>
  Claim C10. With \<open>batch_size = 0\<close>, \<open>batch_create_records\<close> raises \<^verbatim>\<open>ValueError\<close> for
  every input, the empty list included, before any create call: the step of the range is
  zero. With a negative \<open>batch_size\<close> it returns the empty list and makes no create call,
  whatever the input, so for a non-empty input the result is not as long as the input.
\<close>

theorem batch_create_records_nonpositive_batch_size:
  "batch_create_records env object_id records 0 w =
     (Inl (Exc ValueError ''range() arg 3 must not be zero''), w) \<and>
   (batch_size < 0 \<longrightarrow>
      batch_create_records env object_id records batch_size w = (Inr [], w)) \<and>
   (batch_size < 0 \<and> records \<noteq> [] \<longrightarrow>
      \<not> (\<exists>results. fst (batch_create_records env object_id records batch_size w) = Inr results \<and>
            length results = length records))"
  by (simp add: batch_create_records_def py_range_def)

text \<open>A zero batch size on the empty list, and a negative one on five payloads.\<close>

theorem batch_create_records_nonpositive_batch_size_witness:
  "batch_create_records create_env ''people'' [] 0 start =
     (Inl (Exc ValueError ''range() arg 3 must not be zero''), start) \<and>
   batch_create_records create_env ''people'' five_payloads (- 3) start = (Inr [], start) \<and>
   length five_payloads = 5"
  using batch_create_records_nonpositive_batch_size [of create_env "''people''" "[]" start "- 3"]
    batch_create_records_nonpositive_batch_size [of create_env "''people''" five_payloads start "- 3"]
  by (simp add: five_payloads_def)

section \<open>Pagination: what one run does to the payload and to the trace\<close>

text \<open>
  Both query operations send exactly one request, whose body is the payload they are given.
\<close>

lemma list_records_trace:
  "trace (snd (list_records env oid (Some p) w)) =
     trace w @ [Call \<lparr>rq_method = ''POST'',
                      rq_url = base_url @ ''/objects/'' @ oid @ ''/records/query'',
                      rq_json = JObj p\<rparr>]"
  by (simp add: list_records_def request'_trace)

lemma list_entries_trace:
  "trace (snd (list_entries env lid (Some p) w)) =
     trace w @ [Call \<lparr>rq_method = ''POST'',
                      rq_url = base_url @ ''/lists/'' @ lid @ ''/entries/query'',
                      rq_json = JObj p\<rparr>]"
  by (simp add: list_entries_def request'_trace)

lemma query_sends:
  assumes "q = list_records env ident \<or> q = list_entries env ident"
  shows "\<exists>rq. trace (snd (q (Some p) w)) = trace w @ [Call rq] \<and> rq_json rq = JObj p"
  using assms list_records_trace [of env ident p w] list_entries_trace [of env ident p w]
  by auto

text \<open>
  One pass through the loop body writes \<^verbatim>\<open>offset\<close> into the payload and nothing else,
  and extends the trace with one call followed by yields.
\<close>

lemma calls_map_Yield: "calls (map Yield ys) = []"
  by (induction ys) simp_all


lemma paginate_body_payload:
  "fst (snd (paginate_body q ps payload offset w)) = AList.update ''offset'' offset payload"
  by (simp add: paginate_body_def Let_def split: prod.splits sum.splits bool.splits)

lemma paginate_body_trace:
  assumes "\<exists>rq. trace (snd (q (Some (AList.update ''offset'' offset payload)) w)) = trace w @ [Call rq]
              \<and> rq_json rq = JObj (AList.update ''offset'' offset payload)"
  shows "\<exists>rq ys. trace (snd (snd (paginate_body q ps payload offset w))) =
                    trace w @ Call rq # map Yield ys \<and>
                  rq_json rq = JObj (AList.update ''offset'' offset payload)"
proof -
  obtain res w1 where qr: "q (Some (AList.update ''offset'' offset payload)) w = (res, w1)"
    by (cases "q (Some (AList.update ''offset'' offset payload)) w")
  obtain rq where t: "trace w1 = trace w @ [Call rq]"
    and b: "rq_json rq = JObj (AList.update ''offset'' offset payload)"
    using assms qr by auto
  have "\<exists>ys. trace (snd (snd (paginate_body q ps payload offset w))) = trace w1 @ map Yield ys"
    using qr
    by (auto simp add: paginate_body_def Let_def split: sum.splits bool.splits intro: exI [of _ "[]"])
  then show ?thesis using t b by auto
qed

lemma iterate_truthy: "iterate records = Inr items \<Longrightarrow> truthy records = (items \<noteq> [])"
  by (cases records) auto

lemma map_of_setdefault:
  "map_of (setdefault k v d) j =
     (if j = k then Some (case map_of d k of None \<Rightarrow> v | Some u \<Rightarrow> u) else map_of d j)"
  by (simp add: setdefault_def update_conv' split: option.splits)

text \<open>A run that has ended is not changed by more fuel.\<close>

lemma paginate_loop_more_fuel:
  "paginate_loop n q ps payload offset w = (r, p, w') \<Longrightarrow> r \<noteq> Unfinished \<Longrightarrow>
   paginate_loop (n + m) q ps payload offset w = (r, p, w')"
proof (induction n arbitrary: payload offset w)
  case 0
  then show ?case by simp
next
  case (Suc n)
  obtain c p1 w1 where body: "paginate_body q ps payload offset w = (c, p1, w1)"
    by (cases "paginate_body q ps payload offset w")
  show ?case
  proof (cases c)
    case (Continue off')
    then show ?thesis using Suc body by simp
  next
    case (Stop r')
    then show ?thesis using Suc.prems body by simp
  qed
qed

text \<open>
  The invariant of the loop, for a run of any length, ended or not: every request carries a
  payload that agrees with the one the loop started from on every key but \<^verbatim>\<open>offset\<close>,
  and so does the payload the run leaves.
\<close>

lemma paginate_loop_frame:
  assumes q: "q = list_records env ident \<or> q = list_entries env ident"
  shows "\<exists>es. trace (snd (snd (paginate_loop fuel q ps payload offset w))) = trace w @ es \<and>
     (\<forall>rq \<in> set (calls es). \<exists>p. rq_json rq = JObj p \<and>
         (\<forall>k. k \<noteq> ''offset'' \<longrightarrow> map_of p k = map_of payload k)) \<and>
     (\<forall>k. k \<noteq> ''offset'' \<longrightarrow>
         map_of (fst (snd (paginate_loop fuel q ps payload offset w))) k = map_of payload k) \<and>
     (0 < fuel \<longrightarrow> map_of (fst (snd (paginate_loop fuel q ps payload offset w))) ''offset'' \<noteq> None)"
proof (induction fuel arbitrary: payload offset w)
  case 0
  show ?case by simp
next
  case (Suc n)
  let ?p1 = "AList.update ''offset'' offset payload"
  obtain c p1 w1 where body: "paginate_body q ps payload offset w = (c, p1, w1)"
    by (cases "paginate_body q ps payload offset w")
  have p1: "p1 = ?p1"
    using paginate_body_payload [of q ps payload offset w] body by simp
  obtain rq ys where t1: "trace w1 = trace w @ Call rq # map Yield ys"
    and rq: "rq_json rq = JObj ?p1"
    using paginate_body_trace [of q offset payload w ps, OF query_sends [OF q, of ?p1 w]] body
    by auto
  have agree: "\<forall>k. k \<noteq> ''offset'' \<longrightarrow> map_of ?p1 k = map_of payload k"
    by (simp add: update_conv')
  have has: "map_of ?p1 ''offset'' \<noteq> None"
    by (simp add: update_conv')
  show ?case
  proof (cases c)
    case (Stop r)
    then have res: "paginate_loop (Suc n) q ps payload offset w = (r, p1, w1)"
      using body by simp
    have "calls (Call rq # map Yield ys) = [rq]" by (simp add: calls_map_Yield)
    then show ?thesis
      unfolding res using t1 rq agree has p1 by auto
  next
    case (Continue off')
    then have res: "paginate_loop (Suc n) q ps payload offset w = paginate_loop n q ps p1 off' w1"
      using body by simp
    obtain es where t2: "trace (snd (snd (paginate_loop n q ps p1 off' w1))) = trace w1 @ es"
      and c2: "\<forall>rq \<in> set (calls es). \<exists>p. rq_json rq = JObj p \<and>
         (\<forall>k. k \<noteq> ''offset'' \<longrightarrow> map_of p k = map_of p1 k)"
      and f2: "\<forall>k. k \<noteq> ''offset'' \<longrightarrow>
         map_of (fst (snd (paginate_loop n q ps p1 off' w1))) k = map_of p1 k"
      and o2: "0 < n \<longrightarrow> map_of (fst (snd (paginate_loop n q ps p1 off' w1))) ''offset'' \<noteq> None"
      using Suc.IH [of p1 off' w1] by blast
    have t: "trace (snd (snd (paginate_loop n q ps p1 off' w1))) =
        trace w @ (Call rq # map Yield ys @ es)"
      using t1 t2 by simp
    have cs: "calls (Call rq # map Yield ys @ es) = rq # calls es"
      by (simp add: calls_append calls_map_Yield)
    have c: "\<forall>rq \<in> set (rq # calls es). \<exists>p. rq_json rq = JObj p \<and>
         (\<forall>k. k \<noteq> ''offset'' \<longrightarrow> map_of p k = map_of payload k)"
      using c2 rq agree p1 by auto
    have f: "\<forall>k. k \<noteq> ''offset'' \<longrightarrow>
         map_of (fst (snd (paginate_loop n q ps p1 off' w1))) k = map_of payload k"
      using f2 agree p1 by simp
    have o: "map_of (fst (snd (paginate_loop n q ps p1 off' w1))) ''offset'' \<noteq> None"
    proof (cases n)
      case 0
      then show ?thesis using has p1 by simp
    next
      case (Suc m)
      then show ?thesis using o2 by simp
    qed
    show ?thesis
      unfolding res using t c f o cs by (intro exI [of _ "Call rq # map Yield ys @ es"]) simp
  qed
qed

lemma paginate_run_frame:
  assumes q: "q = list_records env ident \<or> q = list_entries env ident"
  shows "\<exists>es. trace (snd (snd (paginate fuel q (Some payload) ps w))) = trace w @ es \<and>
     (\<forall>rq \<in> set (calls es). \<exists>p. rq_json rq = JObj p \<and>
         (\<forall>k. k \<noteq> ''offset'' \<longrightarrow>
            map_of p k = map_of (setdefault ''limit'' (JInt ps) payload) k)) \<and>
     (\<forall>k. k \<noteq> ''offset'' \<longrightarrow>
         map_of (fst (snd (paginate fuel q (Some payload) ps w))) k =
         map_of (setdefault ''limit'' (JInt ps) payload) k) \<and>
     (0 < fuel \<longrightarrow> map_of (fst (snd (paginate fuel q (Some payload) ps w))) ''offset'' \<noteq> None)"
  using paginate_loop_frame [OF q, of fuel ps "setdefault ''limit'' (JInt ps) payload"
      "dict_get (setdefault ''limit'' (JInt ps) payload) ''offset'' (JInt 0)" w]
  by (simp add: paginate_def Let_def)

section \<open>Pagination: the limit and the step of the offset\<close>

text \<open>
  Claim C1, as stated, fails on the code: \<^verbatim>\<open>payload.setdefault('limit', page_size)\<close>
  keeps a \<^verbatim>\<open>limit\<close> that the payload already defines. With the payload
  \<^verbatim>\<open>{'limit': 10}\<close> and \<open>page_size = 5\<close> the payload keeps \<^verbatim>\<open>limit\<close> 10 after the run,
  both requests carry \<^verbatim>\<open>limit\<close> 10, and the offset moves from 0 to 5, by \<open>page_size\<close> and
  not by the limit of 10.
\<close>

theorem paginate_records_limit_overwritten_counterexample:
  "map_of (fst (snd (paginate_records (paged_env seven_records) 3 ''people''
                       (Some [(''limit'', JInt 10)]) 5 start))) ''limit'' = Some (JInt 10) \<and>
   map_of (fst (snd (paginate_records (paged_env seven_records) 3 ''people''
                       (Some [(''limit'', JInt 10)]) 5 start))) ''limit'' \<noteq> Some (JInt 5) \<and>
   map rq_json (calls (trace (snd (snd (paginate_records (paged_env seven_records) 3 ''people''
                       (Some [(''limit'', JInt 10)]) 5 start))))) =
     [JObj [(''limit'', JInt 10), (''offset'', JInt 0)],
      JObj [(''limit'', JInt 10), (''offset'', JInt 5)]]"
  by code_simp

text \<open>
  Claim C1, amended. For every run of \<open>paginate_records\<close> or \<open>paginate_entries\<close> on a payload
  the caller supplies, of any length: the payload's \<^verbatim>\<open>limit\<close> is \<open>page_size\<close> when the
  payload defined none and the value the payload defined otherwise, and every request of the
  run carries that limit. In any pass through the loop with a positive \<open>page_size\<close> and a
  payload whose \<^verbatim>\<open>limit\<close> is \<open>page_size\<close>: after a page whose item count is not less
  than \<open>page_size\<close> the loop goes on with the offset advanced by that limit, which is the
  offset of the next fetch, and the limit stays.
\<close>

theorem pagination_keeps_given_limit_and_steps_by_it:
  assumes "(q = list_records env ident \<and>
              run = paginate_records env fuel ident (Some payload) page_size w) \<or>
           (q = list_entries env ident \<and>
              run = paginate_entries env fuel ident (Some payload) page_size w)"
  shows "(let limit = (case map_of payload ''limit'' of None \<Rightarrow> JInt page_size | Some v \<Rightarrow> v)
          in map_of (fst (snd run)) ''limit'' = Some limit \<and>
             (\<exists>es. trace (snd (snd run)) = trace w @ es \<and>
                (\<forall>rq \<in> set (calls es). \<exists>p. rq_json rq = JObj p \<and> map_of p ''limit'' = Some limit))) \<and>
         (0 < page_size \<and>
          map_of pl ''limit'' = Some (JInt page_size) \<and>
          q (Some (AList.update ''offset'' (JInt off) pl)) w0 = (Inr response, w1) \<and>
          contains_data response = Inr True \<and>
          getitem_data response = Inr records \<and>
          iterate records = Inr items \<and>
          page_size \<le> int (length items)
          \<longrightarrow> paginate_loop (Suc n) q page_size pl (JInt off) w0 =
                paginate_loop n q page_size (AList.update ''offset'' (JInt off) pl)
                  (JInt (off + page_size)) (w1\<lparr>trace := trace w1 @ map Yield items\<rparr>) \<and>
              map_of (AList.update ''offset'' (JInt off) pl) ''limit'' = Some (JInt page_size))"
proof -
  have q: "q = list_records env ident \<or> q = list_entries env ident"
    and run: "run = paginate fuel q (Some payload) page_size w"
    using assms by (auto simp add: paginate_records_def paginate_entries_def)
  obtain es where t: "trace (snd (snd run)) = trace w @ es"
    and c: "\<forall>rq \<in> set (calls es). \<exists>p. rq_json rq = JObj p \<and>
         (\<forall>k. k \<noteq> ''offset'' \<longrightarrow>
            map_of p k = map_of (setdefault ''limit'' (JInt page_size) payload) k)"
    and f: "\<forall>k. k \<noteq> ''offset'' \<longrightarrow>
         map_of (fst (snd run)) k = map_of (setdefault ''limit'' (JInt page_size) payload) k"
    using paginate_run_frame [OF q, of fuel payload page_size w] run by blast
  let ?limit = "case map_of payload ''limit'' of None \<Rightarrow> JInt page_size | Some v \<Rightarrow> v"
  have a: "map_of (fst (snd run)) ''limit'' = Some ?limit"
    using f by (simp add: map_of_setdefault)
  have b: "\<forall>rq \<in> set (calls es). \<exists>p. rq_json rq = JObj p \<and> map_of p ''limit'' = Some ?limit"
  proof
    fix rq assume "rq \<in> set (calls es)"
    then obtain p where "rq_json rq = JObj p" and "\<forall>k. k \<noteq> ''offset'' \<longrightarrow>
            map_of p k = map_of (setdefault ''limit'' (JInt page_size) payload) k"
      using c by blast
    then show "\<exists>p. rq_json rq = JObj p \<and> map_of p ''limit'' = Some ?limit"
      by (simp add: map_of_setdefault)
  qed
  have step: "0 < page_size \<and>
          map_of pl ''limit'' = Some (JInt page_size) \<and>
          q (Some (AList.update ''offset'' (JInt off) pl)) w0 = (Inr response, w1) \<and>
          contains_data response = Inr True \<and>
          getitem_data response = Inr records \<and>
          iterate records = Inr items \<and>
          page_size \<le> int (length items)
          \<longrightarrow> paginate_loop (Suc n) q page_size pl (JInt off) w0 =
                paginate_loop n q page_size (AList.update ''offset'' (JInt off) pl)
                  (JInt (off + page_size)) (w1\<lparr>trace := trace w1 @ map Yield items\<rparr>) \<and>
              map_of (AList.update ''offset'' (JInt off) pl) ''limit'' = Some (JInt page_size)"
  proof (intro impI, elim conjE)
    assume ps: "0 < page_size"
      and lim: "map_of pl ''limit'' = Some (JInt page_size)"
      and qr: "q (Some (AList.update ''offset'' (JInt off) pl)) w0 = (Inr response, w1)"
      and cd: "contains_data response = Inr True"
      and gd: "getitem_data response = Inr records"
      and it: "iterate records = Inr items"
      and full: "page_size \<le> int (length items)"
    have "items \<noteq> []" using ps full by auto
    then have tr: "truthy records" using iterate_truthy [OF it] by simp
    have "paginate_body q page_size pl (JInt off) w0 =
        (Continue (JInt (off + page_size)), AList.update ''offset'' (JInt off) pl,
         w1\<lparr>trace := trace w1 @ map Yield items\<rparr>)"
      using qr cd gd it tr full by (simp add: paginate_body_def Let_def)
    then have "paginate_loop (Suc n) q page_size pl (JInt off) w0 =
                paginate_loop n q page_size (AList.update ''offset'' (JInt off) pl)
                  (JInt (off + page_size)) (w1\<lparr>trace := trace w1 @ map Yield items\<rparr>)"
      by simp
    moreover have "map_of (AList.update ''offset'' (JInt off) pl) ''limit'' = Some (JInt page_size)"
      using lim by (simp add: update_conv')
    ultimately show "paginate_loop (Suc n) q page_size pl (JInt off) w0 =
                paginate_loop n q page_size (AList.update ''offset'' (JInt off) pl)
                  (JInt (off + page_size)) (w1\<lparr>trace := trace w1 @ map Yield items\<rparr>) \<and>
              map_of (AList.update ''offset'' (JInt off) pl) ''limit'' = Some (JInt page_size)"
      by simp
  qed
  show ?thesis using a b t step by (simp add: Let_def)
qed

text \<open>
  The limit of 10 of the counterexample is kept; and with the limit 5 that an absent limit
  gets, the offset steps from 0 to 5 after the full first page.
\<close>

theorem pagination_keeps_given_limit_and_steps_by_it_witness:
  "map_of (fst (snd (paginate_records (paged_env seven_records) 3 ''people''
                       (Some [(''limit'', JInt 10)]) 5 start))) ''limit'' = Some (JInt 10) \<and>
   paginate_loop (Suc 2) (list_records (paged_env seven_records) ''people'') 5
     [(''limit'', JInt 5)] (JInt 0) start =
   paginate_loop 2 (list_records (paged_env seven_records) ''people'') 5
     [(''limit'', JInt 5), (''offset'', JInt 0)] (JInt (0 + 5))
     \<lparr>server = 1,
      trace =
        Call \<lparr>rq_method = ''POST'',
              rq_url = ''https://api.attio.com/v2/objects/people/records/query'',
              rq_json = JObj [(''limit'', JInt 5), (''offset'', JInt 0)]\<rparr> #
        map Yield (take 5 seven_records)\<rparr>"
proof -
  let ?env = "paged_env seven_records"
  let ?q = "list_records ?env ''people''"
  let ?run = "paginate_records ?env 3 ''people'' (Some [(''limit'', JInt 10)]) 5 start"
  let ?w1 = "\<lparr>server = 1,
     trace = [Call \<lparr>rq_method = ''POST'',
             rq_url = ''https://api.attio.com/v2/objects/people/records/query'',
             rq_json = JObj [(''limit'', JInt 5), (''offset'', JInt 0)]\<rparr>]\<rparr>"
  have a: "(?q = list_records ?env ''people'' \<and> ?run = ?run) \<or>
           (?q = list_entries ?env ''people'' \<and>
            ?run = paginate_entries ?env 3 ''people'' (Some [(''limit'', JInt 10)]) 5 start)"
    by simp
  have ps: "(0::int) < 5" by simp
  have lim: "map_of [(''limit'', JInt 5)] ''limit'' = Some (JInt 5)" by simp
  have fetch: "?q (Some (AList.update ''offset'' (JInt 0) [(''limit'', JInt 5)])) start =
      (Inr (JObj [(''data'', JList (take 5 seven_records))]), ?w1)"
    by code_simp
  have cd: "contains_data (JObj [(''data'', JList (take 5 seven_records))]) = Inr True"
    by simp
  have gd: "getitem_data (JObj [(''data'', JList (take 5 seven_records))]) =
      Inr (JList (take 5 seven_records))"
    by simp
  have it: "iterate (JList (take 5 seven_records)) = Inr (take 5 seven_records)"
    by simp
  have full: "5 \<le> int (length (take 5 seven_records))"
    by (simp add: seven_records_def)
  have p: "AList.update ''offset'' (JInt 0) [(''limit'', JInt 5)] =
      [(''limit'', JInt 5), (''offset'', JInt 0)]"
    by simp
  show ?thesis
    using pagination_keeps_given_limit_and_steps_by_it
      [OF a, where off = 0 and pl = "[(''limit'', JInt 5)]" and ?w0.0 = start
         and response = "JObj [(''data'', JList (take 5 seven_records))]" and ?w1.0 = ?w1
         and records = "JList (take 5 seven_records)" and items = "take 5 seven_records" and n = 2]
      ps lim fetch cd gd it full
    by (simp add: p Let_def)
qed

section \<open>Pagination: a short page is the last page\<close>

text \<open>
  Claim C2. In any pass through the loop of \<open>paginate_records\<close> or \<open>paginate_entries\<close>, from
  any payload, offset and world: if the query returns a response whose \<^verbatim>\<open>data\<close> iterates
  to fewer than \<open>page_size\<close> items, the run ends there by returning, whatever fuel is left. Its
  trace is the trace before the pass, the one call of this pass and the yields of this page's
  items, so no call follows the page.
\<close>

theorem short_page_ends_pagination:
  assumes "q = list_records env ident \<or> q = list_entries env ident"
    and "q (Some (AList.update ''offset'' offset payload)) w = (Inr response, w1)"
    and "contains_data response = Inr True"
    and "getitem_data response = Inr records"
    and "iterate records = Inr items"
    and "int (length items) < page_size"
  shows "paginate_loop (Suc n) q page_size payload offset w =
           (Returned, AList.update ''offset'' offset payload,
            w1\<lparr>trace := trace w1 @ map Yield items\<rparr>) \<and>
         (\<exists>rq. trace w1 @ map Yield items = trace w @ Call rq # map Yield items)"
proof -
  have "paginate_body q page_size payload offset w =
      (Stop Returned, AList.update ''offset'' offset payload,
       w1\<lparr>trace := trace w1 @ map Yield items\<rparr>)"
  proof (cases "items = []")
    case True
    then have "\<not> truthy records" using iterate_truthy [OF assms(5)] by simp
    then show ?thesis using assms True by (simp add: paginate_body_def Let_def)
  next
    case False
    then have "truthy records" using iterate_truthy [OF assms(5)] by simp
    then show ?thesis using assms by (simp add: paginate_body_def Let_def)
  qed
  then have "paginate_loop (Suc n) q page_size payload offset w =
           (Returned, AList.update ''offset'' offset payload,
            w1\<lparr>trace := trace w1 @ map Yield items\<rparr>)"
    by simp
  moreover have "\<exists>rq. trace w1 = trace w @ [Call rq]"
    using query_sends [OF assms(1), of "AList.update ''offset'' offset payload" w] assms(2) by auto
  ultimately show ?thesis by auto
qed

text \<open>The second page of seven records in pages of five: two items, and the run returns.\<close>

theorem short_page_ends_pagination_witness:
  "paginate_loop (Suc 8) (list_records (paged_env seven_records) ''people'') 5
     [(''limit'', JInt 5), (''offset'', JInt 0)] (JInt 5) start =
   (Returned, [(''limit'', JInt 5), (''offset'', JInt 5)],
    \<lparr>server = 1,
     trace =
       Call \<lparr>rq_method = ''POST'',
             rq_url = ''https://api.attio.com/v2/objects/people/records/query'',
             rq_json = JObj [(''limit'', JInt 5), (''offset'', JInt 5)]\<rparr> #
       map Yield (drop 5 seven_records)\<rparr>)"
proof -
  let ?q = "list_records (paged_env seven_records) ''people''"
  let ?w1 = "\<lparr>server = 1,
     trace = [Call \<lparr>rq_method = ''POST'',
             rq_url = ''https://api.attio.com/v2/objects/people/records/query'',
             rq_json = JObj [(''limit'', JInt 5), (''offset'', JInt 5)]\<rparr>]\<rparr>"
  have q: "?q = list_records (paged_env seven_records) ''people'' \<or>
           ?q = list_entries (paged_env seven_records) ''people''" by simp
  have fetch: "?q (Some (AList.update ''offset'' (JInt 5) [(''limit'', JInt 5), (''offset'', JInt 0)]))
      start = (Inr (JObj [(''data'', JList (drop 5 seven_records))]), ?w1)"
    by code_simp
  have cd: "contains_data (JObj [(''data'', JList (drop 5 seven_records))]) = Inr True"
    by simp
  have gd: "getitem_data (JObj [(''data'', JList (drop 5 seven_records))]) =
      Inr (JList (drop 5 seven_records))"
    by simp
  have it: "iterate (JList (drop 5 seven_records)) = Inr (drop 5 seven_records)"
    by simp
  have short: "int (length (drop 5 seven_records)) < 5"
    by (simp add: seven_records_def)
  have p: "AList.update ''offset'' (JInt 5) [(''limit'', JInt 5), (''offset'', JInt 0)] =
      [(''limit'', JInt 5), (''offset'', JInt 5)]"
    by simp
  show ?thesis
    using short_page_ends_pagination [OF q fetch cd gd it short, of 8] by (simp add: p)
qed

section \<open>Pagination: completeness on a stable result set\<close>








text \<open>
  The run without a payload, evaluated: a call, the five items of the first page, a second
  call and the two items of the second page.
\<close>

lemma paginate_records_seven_by_five:
  "paginate_records (paged_env seven_records) 2 ''people'' None 5 start =
     (Returned,
      [(''limit'', JInt 5), (''offset'', JInt 5)],
      \<lparr>server = 2,
       trace =
         Call \<lparr>rq_method = ''POST'',
               rq_url = ''https://api.attio.com/v2/objects/people/records/query'',
               rq_json = JObj [(''limit'', JInt 5), (''offset'', JInt 0)]\<rparr> #
         map Yield (take 5 seven_records) @
         Call \<lparr>rq_method = ''POST'',
               rq_url = ''https://api.attio.com/v2/objects/people/records/query'',
               rq_json = JObj [(''limit'', JInt 5), (''offset'', JInt 5)]\<rparr> #
         map Yield (drop 5 seven_records)\<rparr>)"
  by code_simp

section \<open>Pagination: a response without data, or with empty data\<close>

text \<open>
  Claim C7. In any pass through the loop of \<open>paginate_records\<close> or \<open>paginate_entries\<close>: if the
  response is a JSON object that has no \<^verbatim>\<open>data\<close> field, or whose \<^verbatim>\<open>data\<close> is the
  empty list, the run ends there by returning, with no error, whatever fuel is left; the
  trace gains the one call of this pass and no yield, so the items yielded are those of the
  earlier pages.
\<close>

theorem missing_or_empty_data_ends_pagination:
  assumes "q = list_records env ident \<or> q = list_entries env ident"
    and "q (Some (AList.update ''offset'' offset payload)) w = (Inr (JObj kvs), w1)"
    and "map_of kvs ''data'' = None \<or> map_of kvs ''data'' = Some (JList [])"
  shows "paginate_loop (Suc n) q page_size payload offset w =
           (Returned, AList.update ''offset'' offset payload, w1) \<and>
         (\<exists>rq. trace w1 = trace w @ [Call rq]) \<and>
         yields (trace w1) = yields (trace w)"
proof -
  have "paginate_body q page_size payload offset w =
      (Stop Returned, AList.update ''offset'' offset payload, w1)"
    using assms(3)
  proof
    assume "map_of kvs ''data'' = None"
    then have "''data'' \<notin> set (map fst kvs)" by (simp add: map_of_eq_None_iff)
    then show ?thesis using assms(2) by (simp add: paginate_body_def Let_def)
  next
    assume d: "map_of kvs ''data'' = Some (JList [])"
    then have "''data'' \<in> set (map fst kvs)"
      by (metis map_of_eq_None_iff option.distinct(1) set_map)
    then show ?thesis using assms(2) d by (simp add: paginate_body_def Let_def)
  qed
  then have "paginate_loop (Suc n) q page_size payload offset w =
           (Returned, AList.update ''offset'' offset payload, w1)"
    by simp
  moreover obtain rq where "trace w1 = trace w @ [Call rq]"
    using query_sends [OF assms(1), of "AList.update ''offset'' offset payload" w] assms(2) by auto
  ultimately show ?thesis by (auto simp add: yields_append)
qed

text \<open>A fetch at offset 10 of seven records: the data list is empty, and the run returns.\<close>

theorem missing_or_empty_data_ends_pagination_witness:
  "paginate_loop (Suc 8) (list_records (paged_env seven_records) ''people'') 5
     [(''limit'', JInt 5), (''offset'', JInt 5)] (JInt 10) start =
   (Returned, [(''limit'', JInt 5), (''offset'', JInt 10)],
    \<lparr>server = 1,
     trace =
       [Call \<lparr>rq_method = ''POST'',
              rq_url = ''https://api.attio.com/v2/objects/people/records/query'',
              rq_json = JObj [(''limit'', JInt 5), (''offset'', JInt 10)]\<rparr>]\<rparr>)"
proof -
  let ?q = "list_records (paged_env seven_records) ''people''"
  let ?w1 = "\<lparr>server = 1,
     trace = [Call \<lparr>rq_method = ''POST'',
             rq_url = ''https://api.attio.com/v2/objects/people/records/query'',
             rq_json = JObj [(''limit'', JInt 5), (''offset'', JInt 10)]\<rparr>]\<rparr>"
  have q: "?q = list_records (paged_env seven_records) ''people'' \<or>
           ?q = list_entries (paged_env seven_records) ''people''" by simp
  have fetch: "?q (Some (AList.update ''offset'' (JInt 10) [(''limit'', JInt 5), (''offset'', JInt 5)]))
      start = (Inr (JObj [(''data'', JList [])]), ?w1)"
    by code_simp
  have d: "map_of [(''data'', JList [])] ''data'' = None \<or>
           map_of [(''data'', JList [])] ''data'' = Some (JList [])"
    by simp
  have p: "AList.update ''offset'' (JInt 10) [(''limit'', JInt 5), (''offset'', JInt 5)] =
      [(''limit'', JInt 5), (''offset'', JInt 10)]"
    by simp
  show ?thesis
    using missing_or_empty_data_ends_pagination [OF q fetch d, of 8 5] by (simp add: p)
qed

section \<open>Pagination: the frame of the payload\<close>

text \<open>
  Claim C9. For every run of \<open>paginate_records\<close> or \<open>paginate_entries\<close> on a payload the caller
  supplies, of any length, ended or not: every key other than \<^verbatim>\<open>limit\<close> and
  \<^verbatim>\<open>offset\<close> has in the payload the run leaves the value it had at the start, and the same
  in the payload of every request of the run; \<^verbatim>\<open>limit\<close> is set to \<open>page_size\<close> when it was
  absent and kept otherwise; and once the loop body has run, \<^verbatim>\<open>offset\<close> is written.
\<close>

theorem pagination_mutates_only_limit_and_offset:
  assumes "run = paginate_records env fuel ident (Some payload) page_size w \<or>
           run = paginate_entries env fuel ident (Some payload) page_size w"
  shows "(\<forall>k. k \<noteq> ''limit'' \<and> k \<noteq> ''offset'' \<longrightarrow> map_of (fst (snd run)) k = map_of payload k) \<and>
         map_of (fst (snd run)) ''limit'' =
           Some (case map_of payload ''limit'' of None \<Rightarrow> JInt page_size | Some v \<Rightarrow> v) \<and>
         (0 < fuel \<longrightarrow> map_of (fst (snd run)) ''offset'' \<noteq> None) \<and>
         (\<exists>es. trace (snd (snd run)) = trace w @ es \<and>
            (\<forall>rq \<in> set (calls es). \<exists>p. rq_json rq = JObj p \<and>
               (\<forall>k. k \<noteq> ''limit'' \<and> k \<noteq> ''offset'' \<longrightarrow> map_of p k = map_of payload k)))"
proof -
  obtain q where q: "q = list_records env ident \<or> q = list_entries env ident"
    and run: "run = paginate fuel q (Some payload) page_size w"
    using assms by (auto simp add: paginate_records_def paginate_entries_def)
  obtain es where t: "trace (snd (snd run)) = trace w @ es"
    and c: "\<forall>rq \<in> set (calls es). \<exists>p. rq_json rq = JObj p \<and>
         (\<forall>k. k \<noteq> ''offset'' \<longrightarrow>
            map_of p k = map_of (setdefault ''limit'' (JInt page_size) payload) k)"
    and f: "\<forall>k. k \<noteq> ''offset'' \<longrightarrow>
         map_of (fst (snd run)) k = map_of (setdefault ''limit'' (JInt page_size) payload) k"
    and o: "0 < fuel \<longrightarrow> map_of (fst (snd run)) ''offset'' \<noteq> None"
    using paginate_run_frame [OF q, of fuel payload page_size w] run by blast
  have a: "\<forall>k. k \<noteq> ''limit'' \<and> k \<noteq> ''offset'' \<longrightarrow> map_of (fst (snd run)) k = map_of payload k"
    using f by (simp add: map_of_setdefault)
  have b: "map_of (fst (snd run)) ''limit'' =
           Some (case map_of payload ''limit'' of None \<Rightarrow> JInt page_size | Some v \<Rightarrow> v)"
    using f by (simp add: map_of_setdefault)
  have d: "\<forall>rq \<in> set (calls es). \<exists>p. rq_json rq = JObj p \<and>
               (\<forall>k. k \<noteq> ''limit'' \<and> k \<noteq> ''offset'' \<longrightarrow> map_of p k = map_of payload k)"
  proof
    fix rq assume "rq \<in> set (calls es)"
    then obtain p where "rq_json rq = JObj p" and "\<forall>k. k \<noteq> ''offset'' \<longrightarrow>
            map_of p k = map_of (setdefault ''limit'' (JInt page_size) payload) k"
      using c by blast
    then show "\<exists>p. rq_json rq = JObj p \<and>
               (\<forall>k. k \<noteq> ''limit'' \<and> k \<noteq> ''offset'' \<longrightarrow> map_of p k = map_of payload k)"
      by (simp add: map_of_setdefault)
  qed
  show ?thesis using a b o t d by blast
qed

text \<open>A payload with a \<^verbatim>\<open>sorts\<close> key, over seven records in pages of five.\<close>

theorem pagination_mutates_only_limit_and_offset_witness:
  "map_of (fst (snd (paginate_records (paged_env seven_records) 3 ''people''
                       (Some [(''sorts'', JStr ''name'')]) 5 start))) ''sorts'' =
     Some (JStr ''name'') \<and>
   map_of (fst (snd (paginate_records (paged_env seven_records) 3 ''people''
                       (Some [(''sorts'', JStr ''name'')]) 5 start))) ''limit'' =
     Some (JInt 5) \<and>
   map_of (fst (snd (paginate_records (paged_env seven_records) 3 ''people''
                       (Some [(''sorts'', JStr ''name'')]) 5 start))) ''offset'' \<noteq> None"
  using pagination_mutates_only_limit_and_offset
    [of "paginate_records (paged_env seven_records) 3 ''people''
           (Some [(''sorts'', JStr ''name'')]) 5 start"
        "paged_env seven_records" 3 "''people''" "[(''sorts'', JStr ''name'')]" 5 start]
  by simp

text \<open>The payload that run leaves.\<close>

lemma paginate_records_sorted_payload:
  "fst (snd (paginate_records (paged_env seven_records) 3 ''people''
               (Some [(''sorts'', JStr ''name'')]) 5 start)) =
     [(''sorts'', JStr ''name''), (''limit'', JInt 5), (''offset'', JInt 5)]"
  by code_simp

end
